theory Spec2Isabelle
  imports Complex_Main "HOL-Library.Word"
begin

section \<open>Numbers of the tracker\<close>

text \<open>
  The tracking manager computes with C++ \<open>float\<close> and \<open>double\<close>. A value is modelled
  as a real number, one of the two infinities, or not-a-number. The exceptional values
  follow IEEE 754: a comparison with \<open>NaN\<close> is false, a division of a non-zero number
  by zero is an infinity, \<open>0/0\<close> and \<open>inf - inf\<close> are \<open>NaN\<close>. The operations on
  finite values are exact and signed zeros are left out; the rounding of a value that
  the source stores as a \<open>float\<close> is \<open>to_float\<close> below, applied to the matcher's threshold
  and to the distances and cells of the distance matrix.
\<close>

datatype cfloat = Fin real | PInf | NInf | NaN

fun fneg :: "cfloat \<Rightarrow> cfloat" where
  "fneg (Fin a) = Fin (- a)"
| "fneg PInf = NInf"
| "fneg NInf = PInf"
| "fneg NaN = NaN"

fun fadd :: "cfloat \<Rightarrow> cfloat \<Rightarrow> cfloat" where
  "fadd NaN b = NaN"
| "fadd a NaN = NaN"
| "fadd (Fin a) (Fin b) = Fin (a + b)"
| "fadd PInf NInf = NaN"
| "fadd NInf PInf = NaN"
| "fadd PInf b = PInf"
| "fadd NInf b = NInf"
| "fadd (Fin a) b = b"

definition fsub :: "cfloat \<Rightarrow> cfloat \<Rightarrow> cfloat" where
  "fsub a b = fadd a (fneg b)"

fun fmul :: "cfloat \<Rightarrow> cfloat \<Rightarrow> cfloat" where
  "fmul NaN b = NaN"
| "fmul a NaN = NaN"
| "fmul (Fin a) (Fin b) = Fin (a * b)"
| "fmul (Fin a) PInf = (if a = 0 then NaN else if 0 < a then PInf else NInf)"
| "fmul (Fin a) NInf = (if a = 0 then NaN else if 0 < a then NInf else PInf)"
| "fmul PInf (Fin b) = (if b = 0 then NaN else if 0 < b then PInf else NInf)"
| "fmul NInf (Fin b) = (if b = 0 then NaN else if 0 < b then NInf else PInf)"
| "fmul PInf PInf = PInf"
| "fmul NInf NInf = PInf"
| "fmul PInf NInf = NInf"
| "fmul NInf PInf = NInf"

fun fdiv :: "cfloat \<Rightarrow> cfloat \<Rightarrow> cfloat" where
  "fdiv NaN b = NaN"
| "fdiv a NaN = NaN"
| "fdiv (Fin a) (Fin b) =
     (if b = 0 then (if a = 0 then NaN else if 0 < a then PInf else NInf)
      else Fin (a / b))"
| "fdiv (Fin a) PInf = Fin 0"
| "fdiv (Fin a) NInf = Fin 0"
| "fdiv PInf (Fin b) = (if 0 \<le> b then PInf else NInf)"
| "fdiv NInf (Fin b) = (if 0 \<le> b then NInf else PInf)"
| "fdiv PInf b = NaN"
| "fdiv NInf b = NaN"

text \<open>\<open>flt a b\<close> is the C++ comparison \<open>a < b\<close>.\<close>

fun flt :: "cfloat \<Rightarrow> cfloat \<Rightarrow> bool" where
  "flt NaN b = False"
| "flt a NaN = False"
| "flt (Fin a) (Fin b) = (a < b)"
| "flt (Fin a) PInf = True"
| "flt (Fin a) NInf = False"
| "flt NInf NInf = False"
| "flt NInf b = True"
| "flt PInf b = False"

fun feq :: "cfloat \<Rightarrow> cfloat \<Rightarrow> bool" where
  "feq (Fin a) (Fin b) = (a = b)"
| "feq PInf PInf = True"
| "feq NInf NInf = True"
| "feq a b = False"

definition fgt :: "cfloat \<Rightarrow> cfloat \<Rightarrow> bool" where
  "fgt a b = flt b a"

definition fle :: "cfloat \<Rightarrow> cfloat \<Rightarrow> bool" where
  "fle a b = (flt a b \<or> feq a b)"

text \<open>\<open>std::min(a, b)\<close> is \<open>(b < a) ? b : a\<close>.\<close>

definition fmin :: "cfloat \<Rightarrow> cfloat \<Rightarrow> cfloat" where
  "fmin a b = (if flt b a then b else a)"

text \<open>
  Storing a value in a \<open>float\<close> rounds it to the nearest number of the binary32 format,
  ties to the even mantissa: 24 bits of mantissa, exponents from \<open>-126\<close> (below which
  the spacing stays \<open>2^-149\<close>) to \<open>127\<close>, and infinity when the rounded magnitude reaches
  \<open>2^128\<close>. \<open>round_even\<close> rounds to the nearest integer, ties to even;
  \<open>float_exponent a\<close> is the exponent of the binade of \<open>a\<close>, found by stepping up from
  \<open>-126\<close>.
\<close>

definition round_even :: "real \<Rightarrow> int" where
  "round_even x =
     (let f = \<lfloor>x\<rfloor>; d = x - of_int f
      in if d < 1 / 2 then f else if 1 / 2 < d then f + 1
         else if even f then f else f + 1)"

fun float_exponent_from :: "nat \<Rightarrow> int \<Rightarrow> real \<Rightarrow> int" where
  "float_exponent_from 0 e a = e"
| "float_exponent_from (Suc k) e a =
     (if 2 powi (e + 1) \<le> a then float_exponent_from k (e + 1) a else e)"

definition float_exponent :: "real \<Rightarrow> int" where
  "float_exponent a = float_exponent_from 253 (- 126) a"

fun to_float :: "cfloat \<Rightarrow> cfloat" where
  "to_float (Fin x) =
     (let q = 2 powi (float_exponent \<bar>x\<bar> - 23);
          v = of_int (round_even (\<bar>x\<bar> / q)) * q
      in if 2 powi 128 \<le> v then (if 0 < x then PInf else NInf)
         else Fin (if 0 \<le> x then v else - v))"
| "to_float PInf = PInf"
| "to_float NInf = NInf"
| "to_float NaN = NaN"

text \<open>A \<open>cv::Mat\<close> of floats is the list of its rows.\<close>

type_synonym Mat = "cfloat list list"

definition rows :: "'a list list \<Rightarrow> nat" where
  "rows m = length m"

definition cols :: "'a list list \<Rightarrow> nat" where
  "cols m = (case m of [] \<Rightarrow> 0 | r # _ \<Rightarrow> length r)"

definition empty_mat :: "'a list list \<Rightarrow> bool" where
  "empty_mat m = (rows m = 0 \<or> cols m = 0)"

section \<open>Data model\<close>

record timespec =
  tv_sec :: int
  tv_nsec :: int

text \<open>A frame: only its time stamp is read by the manager; the image is opaque.\<close>

record sFrame =
  stamp :: timespec

text \<open>\<open>cv::Rect2d\<close>, with OpenCV's area and intersection (\<open>a & b\<close>).\<close>

record Rect2d =
  rect_x :: real
  rect_y :: real
  rect_width :: real
  rect_height :: real

definition area :: "Rect2d \<Rightarrow> real" where
  "area r = rect_width r * rect_height r"

definition rect_and :: "Rect2d \<Rightarrow> Rect2d \<Rightarrow> Rect2d" where
  "rect_and a b =
     (let x1 = max (rect_x a) (rect_x b);
          y1 = max (rect_y a) (rect_y b);
          w = min (rect_x a + rect_width a) (rect_x b + rect_width b) - x1;
          h = min (rect_y a + rect_height a) (rect_y b + rect_height b) - y1
      in if w \<le> 0 \<or> h \<le> 0
         then \<lparr>rect_x = 0, rect_y = 0, rect_width = 0, rect_height = 0\<rparr>
         else \<lparr>rect_x = x1, rect_y = y1, rect_width = w, rect_height = h\<rparr>)"

record Object =
  Category :: string
  Confidence :: real
  BoundBox :: Rect2d

text \<open>Field names of the source that end in an underscore (\<open>rect_\<close>, \<open>trackings_\<close>, ...) are
  written without it: such a name is not an Isabelle identifier. The manager's \<open>algo_\<close>
  is \<open>mgr_algo\<close>.\<close>

record Traj =
  traj_rect :: Rect2d
  traj_covar :: Mat

text \<open>
  Modelled from the spec: the class \<open>Tracking\<close> (one track) is not among the sources.
  The spec gives its contract: an integer identifier, a class label, a confidence, a
  tracked rectangle, an algorithm tag set with \<open>setAlgo\<close>, an active flag read with
  \<open>isActive\<close>, and \<open>rectifyTracker\<close>, which hands a detection's rectangle to the track
  as a correction. The motion model behind \<open>updateTracker\<close> and \<open>getTraj\<close> is opaque:
  both are parameters of the operations that call them. The identifier is an
  \<open>int32_t\<close>; the corrections a track received are kept as a log.
\<close>

record Tracking =
  tracking_id :: "32 word"
  obj_name :: string
  probability :: real
  tracked_rect :: Rect2d
  algo :: string
  active :: bool
  corrections :: "(timespec \<times> Rect2d) list"

definition new_Tracking :: "32 word \<Rightarrow> string \<Rightarrow> real \<Rightarrow> Rect2d \<Rightarrow> Tracking" where
  "new_Tracking i name p r =
     \<lparr>tracking_id = i, obj_name = name, probability = p, tracked_rect = r,
      algo = [], active = True, corrections = []\<rparr>"

definition getTrackingId :: "Tracking \<Rightarrow> int" where
  "getTrackingId t = sint (tracking_id t)"

definition getObjName :: "Tracking \<Rightarrow> string" where
  "getObjName t = obj_name t"

definition getTrackedRect :: "Tracking \<Rightarrow> Rect2d" where
  "getTrackedRect t = tracked_rect t"

definition isActive :: "Tracking \<Rightarrow> bool" where
  "isActive t = active t"

definition setAlgo :: "string \<Rightarrow> Tracking \<Rightarrow> Tracking" where
  "setAlgo a t = t\<lparr>algo := a\<rparr>"

definition rectifyTracker :: "sFrame \<Rightarrow> Rect2d \<Rightarrow> Tracking \<Rightarrow> Tracking" where
  "rectifyTracker frame r t = t\<lparr>corrections := corrections t @ [(stamp frame, r)]\<rparr>"

text \<open>
  The manager. \<open>tracking_cnt\<close> is the static counter of the class (an \<open>int32_t\<close>
  shared by every manager of the process); it is carried in the state.
\<close>

record TrackingManager =
  mgr_algo :: string
  initialized :: bool
  qFrameNumLimit :: nat
  validFrames :: "timespec list"
  trackings :: "Tracking list"
  tracking_cnt :: "32 word"

text \<open>
  The threshold of the greedy matcher: \<open>const float kMatchThreshold = 0.3\<close>, that is the
  \<open>float\<close> nearest to 0.3, which is \<open>5033165 / 2^24\<close>, a little above 0.3. The score, a
  \<open>double\<close>, is compared with this value.
\<close>

definition kMatchThreshold :: real where
  "kMatchThreshold = 5033165 / 16777216"

text \<open>The constructor; the static counter starts at 0 when the process starts.\<close>

definition new_TrackingManager :: "32 word \<Rightarrow> TrackingManager" where
  "new_TrackingManager cnt =
     \<lparr>mgr_algo = ''MEDIAN_FLOW'', initialized = False, qFrameNumLimit = 5,
      validFrames = [], trackings = [], tracking_cnt = cnt\<rparr>"

section \<open>The admission window\<close>

fun isDetFrameValid_from :: "timespec list \<Rightarrow> timespec \<Rightarrow> bool" where
  "isDetFrameValid_from [] st = False"
| "isDetFrameValid_from (stamp_h # rest) st =
     (if tv_sec stamp_h = tv_sec st \<and> tv_nsec stamp_h = tv_nsec st then True
      else isDetFrameValid_from rest st)"

definition isDetFrameValid :: "TrackingManager \<Rightarrow> timespec \<Rightarrow> bool" where
  "isDetFrameValid s st = isDetFrameValid_from (validFrames s) st"

definition isTrackFrameValid :: "TrackingManager \<Rightarrow> timespec \<Rightarrow> bool" where
  "isTrackFrameValid s st =
     (if validFrames s = [] then True
      else let latest = last (validFrames s) in
        if tv_nsec latest > tv_nsec st then False
        else if tv_nsec latest < tv_nsec st then True
        else if tv_nsec latest \<ge> tv_nsec st then False
        else True)"

text \<open>
  \<open>track\<close>: the frame's stamp is admitted (pushed at the back, the front popped when
  the window is over its limit), then every track is updated. \<open>updateTracker\<close> belongs
  to the track's motion model and is a parameter; a failed update is only logged, the
  track stays.
\<close>

definition track ::
  "(sFrame \<Rightarrow> Tracking \<Rightarrow> bool \<times> Tracking) \<Rightarrow> TrackingManager \<Rightarrow> sFrame \<Rightarrow> TrackingManager"
where
  "track updateTracker s frame =
     (if \<not> initialized s then s
      else if isTrackFrameValid s (stamp frame) then
        (let pushed = validFrames s @ [stamp frame];
             window = (if length pushed > qFrameNumLimit s then tl pushed else pushed)
         in s\<lparr>validFrames := window,
              trackings := map (\<lambda>t. snd (updateTracker frame t)) (trackings s)\<rparr>)
      else s)"

section \<open>Track lifecycle\<close>

text \<open>
  \<open>addTracking\<close> builds the track with the counter's value, increments the counter
  (an \<open>int32_t\<close>: the increment wraps, which the source only logs), sets the manager's
  algorithm and appends the track. It returns the track and the new state.
\<close>

definition addTracking ::
  "TrackingManager \<Rightarrow> string \<Rightarrow> real \<Rightarrow> Rect2d \<Rightarrow> Tracking \<times> TrackingManager"
where
  "addTracking s name p r =
     (let t = setAlgo (mgr_algo s) (new_Tracking (tracking_cnt s) name p r)
      in (t, s\<lparr>tracking_cnt := tracking_cnt s + 1, trackings := trackings s @ [t]\<rparr>))"

text \<open>\<open>vector::erase\<close> at a position.\<close>

definition erase :: "nat \<Rightarrow> 'a list \<Rightarrow> 'a list" where
  "erase i xs = take i xs @ drop (Suc i) xs"

text \<open>
  The loop of \<open>cleanTrackings\<close>: the iterator is the index \<open>i\<close>; an inactive track is
  erased and the iterator stays, an active one is stepped over.
\<close>

function cleanTrackings_loop :: "nat \<Rightarrow> Tracking list \<Rightarrow> Tracking list" where
  "cleanTrackings_loop i ts =
     (if i < length ts then
        (if \<not> isActive (ts ! i) then cleanTrackings_loop i (erase i ts)
         else cleanTrackings_loop (Suc i) ts)
      else ts)"
  by pat_completeness auto
termination
  by (relation "measure (\<lambda>(i, ts). length ts - i)") (auto simp: erase_def)

definition cleanTrackings :: "TrackingManager \<Rightarrow> TrackingManager" where
  "cleanTrackings s = s\<lparr>trackings := cleanTrackings_loop 0 (trackings s)\<rparr>"

section \<open>The greedy matcher\<close>

text \<open>
  The coordinates of a \<open>cv::Point2i\<close> are 32-bit \<open>int\<close>s, built here from \<open>double\<close>s.
  The conversion truncates towards zero when the truncated value fits an \<open>int\<close>. When
  it does not, C++ leaves the result undefined and the machine decides:
  \<open>out_of_range\<close>, a parameter of the matcher, is that result. On x86-64 the conversion
  instruction then gives \<open>-2^31\<close>, which is \<open>x86_out_of_range\<close>.
\<close>

definition trunc_int :: "real \<Rightarrow> int" where
  "trunc_int r = (if 0 \<le> r then \<lfloor>r\<rfloor> else \<lceil>r\<rceil>)"

definition double_to_int :: "(real \<Rightarrow> 32 word) \<Rightarrow> real \<Rightarrow> 32 word" where
  "double_to_int out_of_range r =
     (if - 2147483649 < r \<and> r < 2147483648 then word_of_int (trunc_int r)
      else out_of_range r)"

definition x86_out_of_range :: "real \<Rightarrow> 32 word" where
  "x86_out_of_range r = - 2147483648"

text \<open>
  The match rate \<open>m\<close> of a track's rectangle \<open>trect\<close> and the detection's \<open>rect\<close>:
  overlap rate times 100, over the distance of the two centres. The centres are
  \<open>int\<close>s and their differences are taken in \<open>int\<close>, where they wrap around.
\<close>

definition match_rate :: "(real \<Rightarrow> 32 word) \<Rightarrow> Rect2d \<Rightarrow> Rect2d \<Rightarrow> cfloat" where
  "match_rate out_of_range trect rect =
     (let c1x = double_to_int out_of_range (rect_x trect + rect_width trect / 2);
          c1y = double_to_int out_of_range (rect_y trect + rect_height trect / 2);
          c2x = double_to_int out_of_range (rect_x rect + rect_width rect / 2);
          c2y = double_to_int out_of_range (rect_y rect + rect_height rect / 2);
          a1 = area trect; a2 = area rect; a0 = area (rect_and trect rect);
          overlap = fdiv (Fin a0) (Fin (a1 + a2 - a0));
          deviate = sqrt (real_of_int ((sint (c1x - c2x))\<^sup>2 + (sint (c1y - c2y))\<^sup>2))
      in fdiv (fmul overlap (Fin 100)) (Fin deviate))"

text \<open>
  The loop over all tracks, on the variables \<open>match\<close>, \<open>in_timezone\<close> and \<open>tracking\<close>
  (an empty \<open>shared_ptr\<close> is \<open>None\<close>). The time-zone check is compiled out
  (\<open>#if 0\<close>), so every track visited sets \<open>in_timezone\<close>.
\<close>

fun getTracking_loop ::
  "(real \<Rightarrow> 32 word) \<Rightarrow> string \<Rightarrow> Rect2d \<Rightarrow> Tracking list
     \<Rightarrow> cfloat \<times> int \<times> Tracking option \<Rightarrow> cfloat \<times> int \<times> Tracking option"
where
  "getTracking_loop out_of_range name rect [] acc = acc"
| "getTracking_loop out_of_range name rect (t # ts) (match, in_timezone, tracking) =
     (if name = getObjName t then
        (let m = match_rate out_of_range (getTrackedRect t) rect in
         if fgt m match then getTracking_loop out_of_range name rect ts (m, 1, Some t)
         else getTracking_loop out_of_range name rect ts (match, 1, tracking))
      else getTracking_loop out_of_range name rect ts (match, 1, tracking))"

definition getTracking ::
  "(real \<Rightarrow> 32 word) \<Rightarrow> TrackingManager \<Rightarrow> string \<Rightarrow> Rect2d \<Rightarrow> real \<Rightarrow> timespec
     \<Rightarrow> Tracking option \<times> TrackingManager"
where
  "getTracking out_of_range s name rect p st =
     (case getTracking_loop out_of_range name rect (trackings s) (Fin 0, 0, None) of
        (match, in_timezone, tracking) \<Rightarrow>
          if fgt match (Fin kMatchThreshold) then (tracking, s)
          else if length (trackings s) = 0 \<or> in_timezone > 0 then
            (case addTracking s name p rect of (t, s') \<Rightarrow> (Some t, s'))
          else (None, s))"

section \<open>The gating matrix\<close>

definition centre :: "Rect2d \<Rightarrow> real \<times> real" where
  "centre r = (rect_x r + rect_width r / 2, rect_y r + rect_height r / 2)"

text \<open>
  One row of the distance matrix. \<open>getTraj\<close> is the track's motion model and
  \<open>mahalanobis t d covar\<close> stands for OpenCV's
  \<open>cv::Mahalanobis(t_centra, d_centra, covar.inv())\<close>, a \<open>double\<close>; both are parameters.
  The distance is kept in the \<open>float\<close> \<open>m_dist\<close>. The row is created at \<open>INFINITY\<close>; a
  cell is overwritten with \<open>std::pow(m_dist, 2)\<close>, stored as a \<open>float\<close>, unless the
  trajectory is missing or \<open>m_dist > 2.0f\<close>. The square of a \<open>float\<close> is exact in the
  \<open>double\<close> that \<open>std::pow\<close> returns, so the cell is the square rounded once.
\<close>

definition distance_row ::
  "(Tracking \<Rightarrow> timespec \<Rightarrow> Traj option) \<Rightarrow> (real \<times> real \<Rightarrow> real \<times> real \<Rightarrow> Mat \<Rightarrow> cfloat)
     \<Rightarrow> Object list \<Rightarrow> timespec \<Rightarrow> Tracking \<Rightarrow> cfloat list"
where
  "distance_row getTraj mahalanobis dets st tracker =
     (case getTraj tracker st of
        None \<Rightarrow> replicate (length dets) PInf
      | Some traj \<Rightarrow>
          map (\<lambda>d. let m_dist = to_float (mahalanobis (centre (traj_rect traj))
                                             (centre (BoundBox d)) (traj_covar traj))
                    in if fgt m_dist (Fin 2) then PInf else to_float (fmul m_dist m_dist))
              dets)"

definition calcTrackDetMahaDistance ::
  "(Tracking \<Rightarrow> timespec \<Rightarrow> Traj option) \<Rightarrow> (real \<times> real \<Rightarrow> real \<times> real \<Rightarrow> Mat \<Rightarrow> cfloat)
     \<Rightarrow> Object list \<Rightarrow> Tracking list \<Rightarrow> timespec \<Rightarrow> Mat"
where
  "calcTrackDetMahaDistance getTraj mahalanobis dets tracks st =
     (if length dets \<le> 0 \<or> length tracks \<le> 0 then []
      else map (distance_row getTraj mahalanobis dets st) tracks)"

section \<open>Assignment by minimum cost\<close>

text \<open>
  The Munkres solver (\<open>munkres.h\<close>) is not among the sources: \<open>solve m row col\<close> is a
  parameter, the entry of the solved matrix at \<open>(row, col)\<close>. A zero entry is read as
  an assignment and written into both match arrays.
\<close>

definition matchTrackDetWithDistance ::
  "(Mat \<Rightarrow> nat \<Rightarrow> nat \<Rightarrow> cfloat) \<Rightarrow> Mat \<Rightarrow> int list \<Rightarrow> int list \<Rightarrow> int list \<times> int list"
where
  "matchTrackDetWithDistance solve distance row_match col_match =
     (if empty_mat distance then (row_match, col_match)
      else if length row_match \<noteq> rows distance \<or> length col_match \<noteq> cols distance
      then (row_match, col_match)
      else
        foldl (\<lambda>acc row.
            foldl (\<lambda>(rm, cm) col.
                if feq (solve distance row col) (Fin 0)
                then (rm[row := int col], cm[col := int row]) else (rm, cm))
              acc [0..<cols distance])
          (row_match, col_match) [0..<rows distance])"

section \<open>Detections\<close>

text \<open>
  The loop over the detections: a matched detection is only reported on the console;
  an unmatched one gets a new track, which is rectified with the detection's box. The
  new track is the last of \<open>trackings\<close>, where the shared pointer is updated.
\<close>

fun detectRecvProcess_loop ::
  "sFrame \<Rightarrow> Object list \<Rightarrow> int list \<Rightarrow> TrackingManager \<Rightarrow> TrackingManager"
where
  "detectRecvProcess_loop frame (obj # objs) (tracker_idx # det_matches) s =
     (if tracker_idx \<ge> 0 then detectRecvProcess_loop frame objs det_matches s
      else
        (case addTracking s (Category obj) (Confidence obj) (BoundBox obj) of
           (tracker, s1) \<Rightarrow>
             detectRecvProcess_loop frame objs det_matches
               (s1\<lparr>trackings := (trackings s1)
                      [length (trackings s1) - 1 := rectifyTracker frame (BoundBox obj) tracker]\<rparr>)))"
| "detectRecvProcess_loop frame objs det_matches s = s"

definition detectRecvProcess ::
  "(Tracking \<Rightarrow> timespec \<Rightarrow> Traj option) \<Rightarrow> (real \<times> real \<Rightarrow> real \<times> real \<Rightarrow> Mat \<Rightarrow> cfloat)
     \<Rightarrow> (Mat \<Rightarrow> nat \<Rightarrow> nat \<Rightarrow> cfloat)
     \<Rightarrow> TrackingManager \<Rightarrow> sFrame \<Rightarrow> Object list \<Rightarrow> TrackingManager"
where
  "detectRecvProcess getTraj mahalanobis solve s frame objs =
     (if initialized s \<and> isDetFrameValid s (stamp frame) then s
      else
        (let distance = calcTrackDetMahaDistance getTraj mahalanobis objs (trackings s)
                          (stamp frame);
             det_matches = replicate (length objs) (- 1);
             tracker_matches = replicate (length (trackings s)) (- 1);
             matched = (if \<not> empty_mat distance
                        then matchTrackDetWithDistance solve distance tracker_matches det_matches
                        else (tracker_matches, det_matches))
         in (detectRecvProcess_loop frame objs (snd matched) s)\<lparr>initialized := True\<rparr>))"

section \<open>Assignment by maximum weight\<close>

text \<open>
  The arrays \<open>searchMatch\<close> writes through its reference parameters: the visit marks of
  the sources (rows) and targets (columns), bytes that hold 0 or 1; the source matched
  to each target, or \<open>-1\<close>; and the smallest gap seen at each target.
\<close>

record search_state =
  srcVisit :: "nat list"
  tgtVisit :: "nat list"
  tgtMatch :: "int list"
  weightDelta :: "cfloat list"

text \<open>
  \<open>searchMatch\<close> and the loop of its body over the targets still to visit. The
  recursion goes through the source a target is matched to; \<open>fuel\<close> bounds its depth,
  and \<open>None\<close> is a search that ran out of it. The test \<open>abs(gap <= 1e-04)\<close> takes the
  absolute value of the comparison's result, so it holds exactly when
  \<open>gap <= 1e-04\<close>. The arrays all have \<open>tgt_size\<close> entries and are read within range.
\<close>

function (sequential) searchMatch ::
  "nat \<Rightarrow> cfloat list \<Rightarrow> cfloat list \<Rightarrow> Mat \<Rightarrow> nat \<Rightarrow> search_state
     \<Rightarrow> (bool \<times> search_state) option"
and searchMatch_loop ::
  "nat \<Rightarrow> cfloat list \<Rightarrow> cfloat list \<Rightarrow> Mat \<Rightarrow> nat \<Rightarrow> cfloat \<Rightarrow> nat list \<Rightarrow> search_state
     \<Rightarrow> (bool \<times> search_state) option"
where
  "searchMatch 0 srcCorr tgtCorr correlations srcId st = None"
| "searchMatch (Suc fuel) srcCorr tgtCorr correlations srcId st =
     searchMatch_loop fuel srcCorr tgtCorr correlations srcId (srcCorr ! srcId)
       [0..<length tgtCorr] (st\<lparr>srcVisit := (srcVisit st)[srcId := 1]\<rparr>)"
| "searchMatch_loop fuel srcCorr tgtCorr correlations srcId srcCorrValue [] st =
     Some (False, st)"
| "searchMatch_loop fuel srcCorr tgtCorr correlations srcId srcCorrValue (i # rest) st =
     (if tgtVisit st ! i = 1 then
        searchMatch_loop fuel srcCorr tgtCorr correlations srcId srcCorrValue rest st
      else
        (let gap0 = fsub (fadd srcCorrValue (tgtCorr ! i)) (correlations ! srcId ! i);
             gap = (if fle gap0 (Fin (1 / 10000)) then Fin 0 else gap0)
         in if feq gap (Fin 0) then
              (let st1 = st\<lparr>tgtVisit := (tgtVisit st)[i := 1]\<rparr>;
                   tgtSrcIdx = tgtMatch st1 ! i
               in if tgtSrcIdx = - 1
                  then Some (True, st1\<lparr>tgtMatch := (tgtMatch st1)[i := int srcId]\<rparr>)
                  else
                    (case searchMatch fuel srcCorr tgtCorr correlations (nat tgtSrcIdx) st1 of
                       None \<Rightarrow> None
                     | Some (found, st2) \<Rightarrow>
                         if found
                         then Some (True, st2\<lparr>tgtMatch := (tgtMatch st2)[i := int srcId]\<rparr>)
                         else searchMatch_loop fuel srcCorr tgtCorr correlations srcId
                                srcCorrValue rest st2))
            else
              searchMatch_loop fuel srcCorr tgtCorr correlations srcId srcCorrValue rest
                (st\<lparr>weightDelta := (weightDelta st)[i := fmin gap (weightDelta st ! i)]\<rparr>)))"
  by pat_completeness auto
termination
  by (relation "measures
        [\<lambda>x. case x of Inl (fuel, _) \<Rightarrow> 2 * fuel | Inr (fuel, _) \<Rightarrow> 2 * fuel + 1,
         \<lambda>x. case x of Inl _ \<Rightarrow> 0 | Inr (_, _, _, _, _, _, rest, _) \<Rightarrow> length rest]")
     auto

text \<open>
  What \<open>matchTrackDetWithProb\<close> can fail with: the relabelling reads
  \<open>*col_visit.ptr<uint8_t>(j)\<close>, the first byte of row \<open>j\<close> of a matrix that has the
  single row 0; and the region of \<open>col_mask\<close> copied into \<open>matches\<close> has to lie inside
  \<open>col_mask\<close>.
\<close>

datatype error = RowOutOfRange | RoiOutOfRange

text \<open>The weights, extended with zeros to a square of side \<open>size_squal\<close>.\<close>

definition pad_square :: "Mat \<Rightarrow> nat \<Rightarrow> Mat" where
  "pad_square weights size_squal =
     map (\<lambda>i. map (\<lambda>j. if i < rows weights \<and> j < cols weights then weights ! i ! j else Fin 0)
                [0..<size_squal])
         [0..<size_squal]"

text \<open>The largest entry of a row, starting from \<open>row_max = 0\<close>.\<close>

definition row_max_of :: "cfloat list \<Rightarrow> cfloat" where
  "row_max_of row =
     foldl (\<lambda>row_max row_value. if fle row_max row_value then row_value else row_max)
       (Fin 0) row"

text \<open>
  \<open>cv::minMaxIdx\<close> on \<open>col_gap\<close>, read back at the index found: the first smallest
  entry (the first entry when none is below infinity).
\<close>

definition min_gap_of :: "cfloat list \<Rightarrow> cfloat" where
  "min_gap_of col_gap =
     col_gap ! snd (foldl (\<lambda>(best, idx) j.
                        if flt (col_gap ! j) best then (col_gap ! j, j) else (best, idx))
                      (PInf, 0) [0..<length col_gap])"

text \<open>The relabelling loop over \<open>j\<close>, on \<open>row_weight\<close> and \<open>col_weight\<close>.\<close>

fun relabel_loop ::
  "cfloat \<Rightarrow> search_state \<Rightarrow> nat list \<Rightarrow> cfloat list \<times> cfloat list
     \<Rightarrow> error + cfloat list \<times> cfloat list"
where
  "relabel_loop min_gap st [] (row_weight, col_weight) = Inr (row_weight, col_weight)"
| "relabel_loop min_gap st (j # js) (row_weight, col_weight) =
     (if j \<noteq> 0 then Inl RowOutOfRange
      else
        (let col_weight' = (if tgtVisit st ! 0 = 1
                            then col_weight[j := fadd (col_weight ! j) min_gap]
                            else col_weight);
             row_weight' = (if srcVisit st ! j = 1
                            then row_weight[j := fsub (row_weight ! j) min_gap]
                            else row_weight)
         in relabel_loop min_gap st js (row_weight', col_weight')))"

text \<open>
  The \<open>while (true)\<close> of row \<open>i\<close>: the visit marks are cleared, the row is searched, and
  the labels are relaxed until the search succeeds. The first argument bounds the
  number of rounds; \<open>None\<close> is a loop that did not end within it.
\<close>

fun matchTrackDetWithProb_while ::
  "nat \<Rightarrow> nat \<Rightarrow> Mat \<Rightarrow> nat \<Rightarrow> nat \<Rightarrow> cfloat list \<times> cfloat list \<times> search_state
     \<Rightarrow> (error + cfloat list \<times> cfloat list \<times> search_state) option"
where
  "matchTrackDetWithProb_while 0 fuel correlations size_squal i acc = None"
| "matchTrackDetWithProb_while (Suc rounds) fuel correlations size_squal i
       (row_weight, col_weight, st) =
     (let st0 = st\<lparr>srcVisit := replicate size_squal 0, tgtVisit := replicate size_squal 0\<rparr>
      in case searchMatch fuel row_weight col_weight correlations i st0 of
           None \<Rightarrow> None
         | Some (ret, st1) \<Rightarrow>
             if \<not> ret then
               (case relabel_loop (min_gap_of (weightDelta st1)) st1 [0..<size_squal]
                       (row_weight, col_weight) of
                  Inl e \<Rightarrow> Some (Inl e)
                | Inr (row_weight', col_weight') \<Rightarrow>
                    matchTrackDetWithProb_while rounds fuel correlations size_squal i
                      (row_weight', col_weight', st1))
             else Some (Inr (row_weight, col_weight, st1)))"

text \<open>The loop over the rows \<open>i\<close>; \<open>col_gap\<close> is reset before each row is searched.\<close>

fun matchTrackDetWithProb_rows ::
  "nat \<Rightarrow> Mat \<Rightarrow> nat \<Rightarrow> nat list \<Rightarrow> cfloat list \<times> cfloat list \<times> search_state
     \<Rightarrow> (error + cfloat list \<times> cfloat list \<times> search_state) option"
where
  "matchTrackDetWithProb_rows fuel correlations size_squal [] acc = Some (Inr acc)"
| "matchTrackDetWithProb_rows fuel correlations size_squal (i # is)
       (row_weight, col_weight, st) =
     (case matchTrackDetWithProb_while fuel fuel correlations size_squal i
             (row_weight, col_weight, st\<lparr>weightDelta := replicate size_squal PInf\<rparr>) of
        None \<Rightarrow> None
      | Some (Inl e) \<Rightarrow> Some (Inl e)
      | Some (Inr acc') \<Rightarrow> matchTrackDetWithProb_rows fuel correlations size_squal is acc')"

text \<open>
  \<open>matchTrackDetWithProb\<close>: \<open>matches\<close> is a matrix of one row. \<open>fuel\<close> bounds both the
  rounds of each row's loop and the depth of a search.
\<close>

definition matchTrackDetWithProb :: "nat \<Rightarrow> Mat \<Rightarrow> int list \<Rightarrow> (error + int list) option" where
  "matchTrackDetWithProb fuel weights matches =
     (let origin_rows = rows weights; origin_cols = cols weights;
          size_squal = (if origin_rows > origin_cols then origin_rows else origin_cols);
          correlations = pad_square weights size_squal;
          col_mask = replicate size_squal (- 1);
          row_weight = map row_max_of correlations;
          col_weight = replicate size_squal (Fin 0);
          st = \<lparr>srcVisit = replicate size_squal 0, tgtVisit = replicate size_squal 0,
                tgtMatch = col_mask, weightDelta = replicate size_squal PInf\<rparr>
      in case matchTrackDetWithProb_rows fuel correlations size_squal [0..<size_squal]
                (row_weight, col_weight, st) of
           None \<Rightarrow> None
         | Some (Inl e) \<Rightarrow> Some (Inl e)
         | Some (Inr (row_weight', col_weight', st')) \<Rightarrow>
             if length matches \<le> size_squal
             then Some (Inr (take (length matches) (tgtMatch st')))
             else Some (Inl RoiOutOfRange))"

section \<open>Sequences of calls\<close>

text \<open>
  A run of \<open>addTracking\<close> calls, one per (label, confidence, rectangle): the tracks
  returned, in the order of the calls, and the final state.
\<close>

fun addTracking_seq ::
  "TrackingManager \<Rightarrow> (string \<times> real \<times> Rect2d) list \<Rightarrow> Tracking list \<times> TrackingManager"
where
  "addTracking_seq s [] = ([], s)"
| "addTracking_seq s ((name, p, r) # calls) =
     (case addTracking s name p r of
        (t, s1) \<Rightarrow> (case addTracking_seq s1 calls of (ts, s2) \<Rightarrow> (t # ts, s2)))"

section \<open>Example inputs\<close>

text \<open>Inputs used as examples: a rectangle, and a manager that holds one track, a dog.\<close>

definition example_rect :: Rect2d where
  "example_rect = \<lparr>rect_x = 0, rect_y = 0, rect_width = 10, rect_height = 10\<rparr>"

definition example_stamp :: timespec where
  "example_stamp = \<lparr>tv_sec = 7, tv_nsec = 0\<rparr>"

definition one_dog_manager :: TrackingManager where
  "one_dog_manager = snd (addTracking (new_TrackingManager 0) ''dog'' 1 example_rect)"

text \<open>
  An initialised manager whose window holds the example stamp, and a detection of a cat
  on the example rectangle.
\<close>

definition admitted_manager :: TrackingManager where
  "admitted_manager =
     (new_TrackingManager 0)\<lparr>initialized := True, validFrames := [example_stamp]\<rparr>"

definition example_object :: Object where
  "example_object = \<lparr>Category = ''cat'', Confidence = 1, BoundBox = example_rect\<rparr>"

declare cleanTrackings_loop.simps [simp del]

section \<open>Properties of the admission window\<close>

text \<open>
  C4 (as the code has it). \<open>isTrackFrameValid\<close> accepts a stamp exactly when the window
  is empty or the nanosecond field of the latest admitted stamp is strictly below the
  stamp's: after the two strict comparisons the source tests \<open>latest.tv_nsec >=
  stamp.tv_nsec\<close> and rejects, so a stamp with the same nanosecond field is refused.
\<close>

theorem isTrackFrameValid_strict:
  "isTrackFrameValid s st =
     (validFrames s = [] \<or> tv_nsec (last (validFrames s)) < tv_nsec st)"
  by (simp add: isTrackFrameValid_def Let_def)

text \<open>
  C4 as stated fails: with the stamp (0 s, 5 ns) admitted, the stamp (1 s, 5 ns) is not
  earlier by its nanosecond field, yet it is rejected.
\<close>

theorem isTrackFrameValid_equal_nsec_rejected:
  "\<not> (isTrackFrameValid
         ((new_TrackingManager 0)\<lparr>validFrames := [\<lparr>tv_sec = 0, tv_nsec = 5\<rparr>]\<rparr>)
         \<lparr>tv_sec = 1, tv_nsec = 5\<rparr>
       = (validFrames ((new_TrackingManager 0)\<lparr>validFrames := [\<lparr>tv_sec = 0, tv_nsec = 5\<rparr>]\<rparr>) = []
          \<or> \<not> tv_nsec \<lparr>tv_sec = 1, tv_nsec = 5\<rparr>
               < tv_nsec (last (validFrames
                   ((new_TrackingManager 0)\<lparr>validFrames := [\<lparr>tv_sec = 0, tv_nsec = 5\<rparr>]\<rparr>)))))"
  by (simp add: isTrackFrameValid_def new_TrackingManager_def)

section \<open>Properties of the track lifecycle\<close>

text \<open>The erase loop started at position \<open>i\<close> keeps the first \<open>i\<close> tracks and the active
  ones among the rest.\<close>

lemma cleanTrackings_loop_filter:
  "cleanTrackings_loop i ts = take i ts @ filter isActive (drop i ts)"
proof (induction i ts rule: cleanTrackings_loop.induct)
  case (1 i ts)
  show ?case
  proof (cases "i < length ts")
    case False
    then show ?thesis by (simp add: cleanTrackings_loop.simps [of i ts])
  next
    case True
    then have d: "drop i ts = ts ! i # drop (Suc i) ts"
      by (simp add: Cons_nth_drop_Suc)
    show ?thesis
    proof (cases "isActive (ts ! i)")
      case True
      with \<open>i < length ts\<close> 1(2) d show ?thesis
        by (simp add: cleanTrackings_loop.simps [of i ts] take_Suc_conv_app_nth)
    next
      case False
      have "take i (erase i ts) = take i ts" "drop i (erase i ts) = drop (Suc i) ts"
        using \<open>i < length ts\<close> by (simp_all add: erase_def)
      with False \<open>i < length ts\<close> 1(1) d show ?thesis
        by (simp add: cleanTrackings_loop.simps [of i ts])
    qed
  qed
qed

text \<open>
  C7. \<open>cleanTrackings\<close> leaves exactly the tracks whose active flag is set, in their
  order, and a second call changes nothing.
\<close>

theorem cleanTrackings_removes_inactive:
  "trackings (cleanTrackings s) = filter (\<lambda>t. active t) (trackings s)
   \<and> cleanTrackings (cleanTrackings s) = cleanTrackings s"
proof -
  have "isActive = (\<lambda>t. active t)" by (simp add: isActive_def fun_eq_iff)
  then show ?thesis
    by (simp add: cleanTrackings_def cleanTrackings_loop_filter)
qed

section \<open>Properties of the window under \<open>track\<close>\<close>

text \<open>\<open>track\<close> never changes the window's limit, and keeps a window within it.\<close>

lemma track_limit: "qFrameNumLimit (track upd s f) = qFrameNumLimit s"
  by (simp add: track_def Let_def)

lemma track_window_le:
  "length (validFrames s) \<le> qFrameNumLimit s \<Longrightarrow>
   length (validFrames (track upd s f)) \<le> qFrameNumLimit s"
  by (auto simp: track_def Let_def)

lemma foldl_track_window_le:
  "length (validFrames s) \<le> qFrameNumLimit s \<Longrightarrow>
   length (validFrames (foldl (track upd) s frames)) \<le> qFrameNumLimit s
   \<and> qFrameNumLimit (foldl (track upd) s frames) = qFrameNumLimit s"
proof (induction frames arbitrary: s)
  case Nil
  then show ?case by simp
next
  case (Cons f frames)
  have "length (validFrames (track upd s f)) \<le> qFrameNumLimit (track upd s f)"
    using Cons.prems by (simp add: track_window_le track_limit)
  from Cons.IH [OF this] show ?case by (simp add: track_limit)
qed

text \<open>
  C8. On a manager whose window is within the limit 5 the constructor sets (the
  constructor's window is empty), the window holds at most 5 stamps after any sequence
  of \<open>track\<close> calls, whatever the tracks' updates do. A frame that is admitted is
  appended, and when the window already holds 5 stamps its front is dropped; a frame
  that is not admitted, or any frame before initialisation, leaves the manager as it is.
\<close>

theorem track_window_capacity:
  assumes "qFrameNumLimit s = 5" and "length (validFrames s) \<le> 5"
  shows "length (validFrames (foldl (track upd) s frames)) \<le> 5
    \<and> (initialized s \<and> isTrackFrameValid s (stamp f) \<longrightarrow>
         validFrames (track upd s f) =
           (if length (validFrames s) = 5 then tl (validFrames s) @ [stamp f]
            else validFrames s @ [stamp f]))
    \<and> (\<not> (initialized s \<and> isTrackFrameValid s (stamp f)) \<longrightarrow> track upd s f = s)"
proof -
  have a: "length (validFrames (foldl (track upd) s frames)) \<le> 5"
    using foldl_track_window_le [of s upd frames] assms by simp
  have b: "initialized s \<and> isTrackFrameValid s (stamp f) \<longrightarrow>
         validFrames (track upd s f) =
           (if length (validFrames s) = 5 then tl (validFrames s) @ [stamp f]
            else validFrames s @ [stamp f])"
    using assms by (cases "validFrames s") (auto simp: track_def Let_def)
  have c: "\<not> (initialized s \<and> isTrackFrameValid s (stamp f)) \<longrightarrow> track upd s f = s"
    by (auto simp: track_def)
  from a b c show ?thesis by blast
qed

text \<open>The theorem at a full window: the stamp with 6 ns pushes out the one with 1 ns.\<close>

theorem track_window_capacity_witness:
  "qFrameNumLimit ((new_TrackingManager 0)\<lparr>initialized := True,
       validFrames := [\<lparr>tv_sec = 0, tv_nsec = 1\<rparr>, \<lparr>tv_sec = 0, tv_nsec = 2\<rparr>,
         \<lparr>tv_sec = 0, tv_nsec = 3\<rparr>, \<lparr>tv_sec = 0, tv_nsec = 4\<rparr>, \<lparr>tv_sec = 0, tv_nsec = 5\<rparr>]\<rparr>) = 5
   \<and> validFrames (track (\<lambda>f t. (True, t))
        ((new_TrackingManager 0)\<lparr>initialized := True,
          validFrames := [\<lparr>tv_sec = 0, tv_nsec = 1\<rparr>, \<lparr>tv_sec = 0, tv_nsec = 2\<rparr>,
            \<lparr>tv_sec = 0, tv_nsec = 3\<rparr>, \<lparr>tv_sec = 0, tv_nsec = 4\<rparr>, \<lparr>tv_sec = 0, tv_nsec = 5\<rparr>]\<rparr>)
        \<lparr>stamp = \<lparr>tv_sec = 0, tv_nsec = 6\<rparr>\<rparr>)
      = [\<lparr>tv_sec = 0, tv_nsec = 2\<rparr>, \<lparr>tv_sec = 0, tv_nsec = 3\<rparr>, \<lparr>tv_sec = 0, tv_nsec = 4\<rparr>,
         \<lparr>tv_sec = 0, tv_nsec = 5\<rparr>, \<lparr>tv_sec = 0, tv_nsec = 6\<rparr>]
   \<and> length (validFrames (foldl (track (\<lambda>f t. (True, t)))
        ((new_TrackingManager 0)\<lparr>initialized := True,
          validFrames := [\<lparr>tv_sec = 0, tv_nsec = 1\<rparr>, \<lparr>tv_sec = 0, tv_nsec = 2\<rparr>,
            \<lparr>tv_sec = 0, tv_nsec = 3\<rparr>, \<lparr>tv_sec = 0, tv_nsec = 4\<rparr>, \<lparr>tv_sec = 0, tv_nsec = 5\<rparr>]\<rparr>)
        [\<lparr>stamp = \<lparr>tv_sec = 0, tv_nsec = 6\<rparr>\<rparr>, \<lparr>stamp = \<lparr>tv_sec = 0, tv_nsec = 7\<rparr>\<rparr>])) \<le> 5"
  using track_window_capacity [of
      "(new_TrackingManager 0)\<lparr>initialized := True,
          validFrames := [\<lparr>tv_sec = 0, tv_nsec = 1\<rparr>, \<lparr>tv_sec = 0, tv_nsec = 2\<rparr>,
            \<lparr>tv_sec = 0, tv_nsec = 3\<rparr>, \<lparr>tv_sec = 0, tv_nsec = 4\<rparr>, \<lparr>tv_sec = 0, tv_nsec = 5\<rparr>]\<rparr>"
      "\<lambda>f t. (True, t)"
      "[\<lparr>stamp = \<lparr>tv_sec = 0, tv_nsec = 6\<rparr>\<rparr>, \<lparr>stamp = \<lparr>tv_sec = 0, tv_nsec = 7\<rparr>\<rparr>]"
      "\<lparr>stamp = \<lparr>tv_sec = 0, tv_nsec = 6\<rparr>\<rparr>"]
  by (simp add: new_TrackingManager_def isTrackFrameValid_def)

section \<open>Properties of the track identifiers\<close>

text \<open>Adding a small natural number to a 32-bit counter does not wrap.\<close>

lemma sint_add_of_nat:
  fixes w :: "32 word"
  assumes "sint w + int i < 2 ^ 31"
  shows "sint (w + of_nat i) = sint w + int i"
proof -
  have lo: "- (2 ^ 31) \<le> sint w"
    using sint_ge [of w] by simp
  have "w + of_nat i = word_of_int (sint w + int i)"
    by simp
  then have "sint (w + of_nat i) = signed_take_bit 31 (sint w + int i)"
    by (simp only: sint_sbintrunc') simp
  also have "\<dots> = sint w + int i"
    using lo assms by (intro signed_take_bit_int_eq_self) auto
  finally show ?thesis .
qed

text \<open>What one call and a run of calls do to the state.\<close>

lemma addTracking_fst:
  "fst (addTracking s name p r) = setAlgo (mgr_algo s) (new_Tracking (tracking_cnt s) name p r)"
  by (simp add: addTracking_def Let_def)

lemma addTracking_snd:
  "snd (addTracking s name p r) =
     s\<lparr>tracking_cnt := tracking_cnt s + 1,
       trackings := trackings s @ [fst (addTracking s name p r)]\<rparr>"
  by (simp add: addTracking_def Let_def)

lemma addTracking_seq_Cons:
  "addTracking_seq s ((name, p, r) # calls) =
     (fst (addTracking s name p r) # fst (addTracking_seq (snd (addTracking s name p r)) calls),
      snd (addTracking_seq (snd (addTracking s name p r)) calls))"
  by (simp split: prod.splits)

lemma addTracking_seq_ids:
  "map tracking_id (fst (addTracking_seq s calls)) =
     map (\<lambda>i. tracking_cnt s + of_nat i) [0..<length calls]"
proof (induction calls arbitrary: s)
  case Nil
  then show ?case by simp
next
  case (Cons c calls)
  obtain name p r where c: "c = (name, p, r)" by (cases c)
  have "tracking_id (fst (addTracking s name p r)) = tracking_cnt s"
    by (simp add: addTracking_fst setAlgo_def new_Tracking_def)
  moreover have "tracking_cnt (snd (addTracking s name p r)) = tracking_cnt s + 1"
    by (simp add: addTracking_snd)
  ultimately show ?case
    using Cons.IH [of "snd (addTracking s name p r)"]
    by (simp only: c addTracking_seq_Cons fst_conv list.map length_Cons map_upt_Suc)
       (simp add: add.assoc)
qed

lemma addTracking_seq_state:
  "trackings (snd (addTracking_seq s calls)) = trackings s @ fst (addTracking_seq s calls)
   \<and> tracking_cnt (snd (addTracking_seq s calls)) = tracking_cnt s + of_nat (length calls)"
proof (induction calls arbitrary: s)
  case Nil
  then show ?case by simp
next
  case (Cons c calls)
  obtain name p r where c: "c = (name, p, r)" by (cases c)
  show ?case
    using Cons.IH [of "snd (addTracking s name p r)"]
    by (simp only: c addTracking_seq_Cons fst_conv snd_conv) (simp add: addTracking_snd add.assoc)
qed

lemma addTracking_seq_length: "length (fst (addTracking_seq s calls)) = length calls"
  using arg_cong [OF addTracking_seq_ids [of s calls], of length] by simp

lemma addTracking_seq_getTrackingId:
  assumes "sint (tracking_cnt s) + int (length calls) < 2 ^ 31"
  shows "map getTrackingId (fst (addTracking_seq s calls)) =
           map (\<lambda>i. sint (tracking_cnt s) + int i) [0..<length calls]"
proof -
  have "map getTrackingId (fst (addTracking_seq s calls)) =
          map sint (map tracking_id (fst (addTracking_seq s calls)))"
    by (simp add: getTrackingId_def comp_def)
  also have "\<dots> = map (\<lambda>i. sint (tracking_cnt s + of_nat i)) [0..<length calls]"
    by (simp only: addTracking_seq_ids map_map comp_def)
  also have "\<dots> = map (\<lambda>i. sint (tracking_cnt s) + int i) [0..<length calls]"
    using assms by (intro map_cong refl sint_add_of_nat) auto
  finally show ?thesis .
qed

text \<open>
  C9 (as the code has it). The counter is an \<open>int32_t\<close>. As long as it does not
  overflow during the calls, the identifiers handed out are the counter's successive
  values, hence strictly increasing; and if the identifiers in the manager's sequence
  were distinct and below the counter before, they are so afterwards.
\<close>

theorem addTracking_ids_increasing:
  assumes "sint (tracking_cnt s) + int (length calls) < 2 ^ 31"
  shows "map getTrackingId (fst (addTracking_seq s calls)) =
           map (\<lambda>i. sint (tracking_cnt s) + int i) [0..<length calls]
    \<and> sorted_wrt (<) (map getTrackingId (fst (addTracking_seq s calls)))
    \<and> (distinct (map getTrackingId (trackings s))
         \<and> (\<forall>t \<in> set (trackings s). getTrackingId t < sint (tracking_cnt s))
       \<longrightarrow> distinct (map getTrackingId (trackings (snd (addTracking_seq s calls))))
         \<and> (\<forall>t \<in> set (trackings (snd (addTracking_seq s calls))).
               getTrackingId t < sint (tracking_cnt (snd (addTracking_seq s calls)))))"
proof -
  let ?new = "map getTrackingId (fst (addTracking_seq s calls))"
  let ?c = "sint (tracking_cnt s)"
  have ids: "?new = map (\<lambda>i. ?c + int i) [0..<length calls]"
    by (rule addTracking_seq_getTrackingId [OF assms])
  have srt: "sorted_wrt (<) ?new"
    unfolding ids by (simp add: sorted_wrt_map sorted_wrt_iff_nth_less)
  have cnt: "sint (tracking_cnt (snd (addTracking_seq s calls))) = ?c + int (length calls)"
    using assms by (simp add: addTracking_seq_state sint_add_of_nat)
  have new_set: "set ?new = {?c + int i | i. i < length calls}"
    unfolding ids by auto
  have inv: "distinct (map getTrackingId (trackings (snd (addTracking_seq s calls))))
         \<and> (\<forall>t \<in> set (trackings (snd (addTracking_seq s calls))).
               getTrackingId t < sint (tracking_cnt (snd (addTracking_seq s calls))))"
    if d: "distinct (map getTrackingId (trackings s))"
      and f: "\<forall>t \<in> set (trackings s). getTrackingId t < ?c"
  proof -
    have dn: "distinct ?new"
      unfolding ids by (simp add: distinct_map inj_on_def)
    have tr: "map getTrackingId (trackings (snd (addTracking_seq s calls))) =
                map getTrackingId (trackings s) @ ?new"
      by (simp add: addTracking_seq_state)
    have disj: "set (map getTrackingId (trackings s)) \<inter> set ?new = {}"
      using f unfolding new_set by fastforce
    have "distinct (map getTrackingId (trackings (snd (addTracking_seq s calls))))"
      unfolding tr using d dn disj by (simp only: distinct_append)
    moreover have "\<forall>i \<in> set (map getTrackingId (trackings (snd (addTracking_seq s calls)))).
        i < sint (tracking_cnt (snd (addTracking_seq s calls)))"
      unfolding tr cnt set_append using f new_set by fastforce
    ultimately show ?thesis by simp
  qed
  from ids srt inv show ?thesis by blast
qed

text \<open>The theorem at two calls on a fresh manager: the identifiers are 0 and 1.\<close>

theorem addTracking_ids_increasing_witness:
  "sint (tracking_cnt (new_TrackingManager 0))
     + int (length [(''cat'', 1::real, \<lparr>rect_x = 0, rect_y = 0, rect_width = 1, rect_height = 1\<rparr>),
                    (''dog'', 1, \<lparr>rect_x = 5, rect_y = 5, rect_width = 1, rect_height = 1\<rparr>)]) < 2 ^ 31
   \<and> map getTrackingId (fst (addTracking_seq (new_TrackingManager 0)
        [(''cat'', 1, \<lparr>rect_x = 0, rect_y = 0, rect_width = 1, rect_height = 1\<rparr>),
         (''dog'', 1, \<lparr>rect_x = 5, rect_y = 5, rect_width = 1, rect_height = 1\<rparr>)])) = [0, 1]
   \<and> distinct (map getTrackingId (trackings (snd (addTracking_seq (new_TrackingManager 0)
        [(''cat'', 1, \<lparr>rect_x = 0, rect_y = 0, rect_width = 1, rect_height = 1\<rparr>),
         (''dog'', 1, \<lparr>rect_x = 5, rect_y = 5, rect_width = 1, rect_height = 1\<rparr>)]))))"
proof -
  have h: "sint (tracking_cnt (new_TrackingManager 0))
     + int (length [(''cat'', 1::real, \<lparr>rect_x = 0, rect_y = 0, rect_width = 1, rect_height = 1\<rparr>),
                    (''dog'', 1, \<lparr>rect_x = 5, rect_y = 5, rect_width = 1, rect_height = 1\<rparr>)]) < 2 ^ 31"
    by (simp add: new_TrackingManager_def)
  have e: "trackings (new_TrackingManager 0) = []" "sint (tracking_cnt (new_TrackingManager 0)) = 0"
    by (simp_all add: new_TrackingManager_def)
  show ?thesis
    using h addTracking_ids_increasing [OF h] by (simp add: e upt_rec)
qed

text \<open>
  C9 as stated fails: the counter wraps. From the counter's start at 0, the call
  number \<open>2^31\<close> gets the identifier \<open>2^31 - 1\<close> and the next call gets \<open>- 2^31\<close>, so
  the identifiers of \<open>2^31 + 1\<close> successive calls are not increasing.
\<close>

theorem addTracking_ids_wrap:
  "\<not> sorted_wrt (<) (map getTrackingId (fst (addTracking_seq (new_TrackingManager 0)
        (replicate 2147483649
           (''cat'', 1, \<lparr>rect_x = 0, rect_y = 0, rect_width = 1, rect_height = 1\<rparr>)))))"
proof
  let ?calls = "replicate 2147483649
           (''cat'', 1::real, \<lparr>rect_x = 0, rect_y = 0, rect_width = 1, rect_height = 1\<rparr>)"
  let ?ids = "map getTrackingId (fst (addTracking_seq (new_TrackingManager 0) ?calls))"
  assume "sorted_wrt (<) ?ids"
  moreover have len: "length ?ids = 2147483649"
    by (simp add: addTracking_seq_length)
  ultimately have "?ids ! 2147483647 < ?ids ! 2147483648"
    by (simp add: sorted_wrt_iff_nth_less)
  moreover have "?ids = map (\<lambda>i. sint (word_of_nat i :: 32 word)) [0..<2147483649]"
  proof -
    have "?ids = map sint (map tracking_id (fst (addTracking_seq (new_TrackingManager 0) ?calls)))"
      by (simp add: getTrackingId_def comp_def)
    also have "\<dots> = map (\<lambda>i. sint (word_of_nat i :: 32 word)) [0..<2147483649]"
      by (simp only: addTracking_seq_ids map_map comp_def length_replicate)
         (simp add: new_TrackingManager_def)
    finally show ?thesis .
  qed
  ultimately have "sint (word_of_nat 2147483647 :: 32 word) < sint (word_of_nat 2147483648 :: 32 word)"
    by simp
  then show False by simp
qed

section \<open>Properties of the greedy matcher\<close>

text \<open>The comparison \<open><\<close> of the number model is a strict order that \<open>NaN\<close> takes no part in.\<close>

lemma flt_irrefl: "\<not> flt a a"
  by (cases a) auto

lemma flt_trans: "flt a b \<Longrightarrow> flt b c \<Longrightarrow> flt a c"
  by (cases a; cases b; cases c) auto

lemma flt_asym: "flt a b \<Longrightarrow> \<not> flt b a"
  by (cases a; cases b) auto

lemma flt_not_flt: "flt a b \<Longrightarrow> \<not> flt a c \<Longrightarrow> \<not> flt b c"
  by (cases a; cases b; cases c) auto


text \<open>
  The loop's result: the score \<open>m\<close> is the start value or the score of a track of the
  requested label, which is then the track kept; no track of that label scores above
  \<open>m\<close>; and \<open>in_timezone\<close> is set as soon as there is a track.
\<close>

lemma getTracking_loop_inv:
  "getTracking_loop out_of_range name rect ts (m0, z0, tr0) = (m, z, tr) \<Longrightarrow>
     ((m = m0 \<and> tr = tr0) \<or>
         (\<exists>t \<in> set ts. tr = Some t \<and> getObjName t = name
            \<and> m = match_rate out_of_range (getTrackedRect t) rect \<and> flt m0 m))
     \<and> (\<forall>u \<in> set ts. getObjName u = name \<longrightarrow> \<not> flt m (match_rate out_of_range (getTrackedRect u) rect))
     \<and> z = (if ts = [] then z0 else 1)"
proof (induction ts arbitrary: m0 z0 tr0)
  case Nil
  then show ?case by simp
next
  case (Cons t ts)
  let ?sc = "match_rate out_of_range (getTrackedRect t) rect"
  show ?case
  proof (cases "name = getObjName t \<and> fgt ?sc m0")
    case True
    with Cons.prems have r: "getTracking_loop out_of_range name rect ts (?sc, 1, Some t) = (m, z, tr)"
      by (simp add: Let_def)
    note ih = Cons.IH [OF r]
    from ih True have a: "(m = m0 \<and> tr = tr0) \<or>
         (\<exists>t' \<in> set (t # ts). tr = Some t' \<and> getObjName t' = name
            \<and> m = match_rate out_of_range (getTrackedRect t') rect \<and> flt m0 m)"
      by (auto simp: fgt_def intro: flt_trans)
    from ih have "\<not> flt m ?sc"
      by (auto simp: flt_irrefl dest: flt_asym)
    with ih have b: "\<forall>u \<in> set (t # ts). getObjName u = name \<longrightarrow>
        \<not> flt m (match_rate out_of_range (getTrackedRect u) rect)"
      by simp
    from ih have c: "z = (if t # ts = [] then z0 else 1)" by simp
    from a b c show ?thesis by blast
  next
    case False
    with Cons.prems have r: "getTracking_loop out_of_range name rect ts (m0, 1, tr0) = (m, z, tr)"
      by (auto simp: Let_def split: if_splits)
    note ih = Cons.IH [OF r]
    from ih have a: "(m = m0 \<and> tr = tr0) \<or>
         (\<exists>t' \<in> set (t # ts). tr = Some t' \<and> getObjName t' = name
            \<and> m = match_rate out_of_range (getTrackedRect t') rect \<and> flt m0 m)"
      by auto
    have "\<not> flt m ?sc" if "getObjName t = name"
    proof -
      from that False have "\<not> flt m0 ?sc" by (auto simp: fgt_def)
      with ih show ?thesis by (auto dest: flt_not_flt)
    qed
    with ih have b: "\<forall>u \<in> set (t # ts). getObjName u = name \<longrightarrow>
        \<not> flt m (match_rate out_of_range (getTrackedRect u) rect)"
      by simp
    from ih have c: "z = (if t # ts = [] then z0 else 1)" by simp
    from a b c show ?thesis by blast
  qed
qed


text \<open>The two ways \<open>getTracking\<close> returns.\<close>

lemma getTracking_no_match:
  assumes l: "getTracking_loop out_of_range name rect (trackings s) (Fin 0, 0, None) = (m, z, tr)"
    and n: "\<not> fgt m (Fin kMatchThreshold)"
  shows "getTracking out_of_range s name rect p st =
           (Some (fst (addTracking s name p rect)), snd (addTracking s name p rect))"
proof -
  from getTracking_loop_inv [OF l] have "z = (if trackings s = [] then 0 else 1)" by simp
  then have "length (trackings s) = 0 \<or> z > 0" by simp
  with l n show ?thesis
    by (simp add: getTracking_def split: prod.splits)
qed

lemma getTracking_match:
  assumes l: "getTracking_loop out_of_range name rect (trackings s) (Fin 0, 0, None) = (m, z, tr)"
    and g: "fgt m (Fin kMatchThreshold)"
  shows "\<exists>t \<in> set (trackings s). getTracking out_of_range s name rect p st = (Some t, s)
            \<and> getObjName t = name \<and> m = match_rate out_of_range (getTrackedRect t) rect"
proof -
  from g have "m \<noteq> Fin 0" by (auto simp: fgt_def kMatchThreshold_def)
  with getTracking_loop_inv [OF l] obtain t where
    t: "t \<in> set (trackings s)" "tr = Some t" "getObjName t = name"
       "m = match_rate out_of_range (getTrackedRect t) rect"
    by auto
  from l g t(2) have "getTracking out_of_range s name rect p st = (Some t, s)"
    by (simp add: getTracking_def)
  with t show ?thesis by blast
qed


text \<open>
  C10. A track returned by \<open>getTracking\<close> carries the requested label, whether it is a
  matched track or a new one.
\<close>

theorem getTracking_label:
  "fst (getTracking out_of_range s name rect p st) = Some t \<Longrightarrow> getObjName t = name"
proof -
  assume r: "fst (getTracking out_of_range s name rect p st) = Some t"
  obtain m z tr where l: "getTracking_loop out_of_range name rect (trackings s) (Fin 0, 0, None) = (m, z, tr)"
    by (cases "getTracking_loop out_of_range name rect (trackings s) (Fin 0, 0, None)")
  show ?thesis
  proof (cases "fgt m (Fin kMatchThreshold)")
    case True
    from getTracking_match [OF l True, of p st] r show ?thesis by auto
  next
    case False
    from getTracking_no_match [OF l False, of p st] r
    have "t = fst (addTracking s name p rect)" by simp
    then show ?thesis
      by (simp add: addTracking_def Let_def setAlgo_def new_Tracking_def getObjName_def)
  qed
qed

text \<open>The examples, evaluated: a rectangle matched with itself has deviation 0 and scores
  infinity.\<close>

lemma example_score: "match_rate out_of_range example_rect example_rect = PInf"
  by (simp add: match_rate_def example_rect_def Let_def area_def rect_and_def)

lemma one_dog: "one_dog_manager =
   \<lparr>mgr_algo = ''MEDIAN_FLOW'', initialized = False, qFrameNumLimit = 5, validFrames = [],
    trackings = [\<lparr>tracking_id = 0, obj_name = ''dog'', probability = 1,
                  tracked_rect = example_rect, algo = ''MEDIAN_FLOW'', active = True,
                  corrections = []\<rparr>],
    tracking_cnt = 1\<rparr>"
  by (simp add: one_dog_manager_def addTracking_def new_TrackingManager_def Let_def
      setAlgo_def new_Tracking_def)

text \<open>The threshold is the \<open>float\<close> nearest to 0.3.\<close>

lemma kMatchThreshold_float: "to_float (Fin (3 / 10)) = Fin kMatchThreshold"
  by code_simp

text \<open>
  A detection that overlaps the dog's rectangle a little, with its centre 9 to the right:
  the score is 0.30000001, above 0.3 and not above the threshold. The dog is not matched
  and a track is created.
\<close>

lemma near_threshold_score:
  "match_rate out_of_range example_rect
     \<lparr>rect_x = 97299999910 / 10270000009, rect_y = 0, rect_width = 10, rect_height = 10\<rparr>
   = Fin (30000001 / 100000000)"
proof -
  have s: "sqrt 81 = 9" by (rule real_sqrt_unique) simp_all
  have t: "trunc_int (148649999955 / 10270000009) = 14" "trunc_int 5 = 5"
    by (simp_all add: trunc_int_def)
  show ?thesis
    by (simp add: match_rate_def example_rect_def Let_def area_def rect_and_def
        double_to_int_def t s)
qed

lemma getTracking_threshold_is_float:
  "fgt (Fin (30000001 / 100000000)) (Fin (3 / 10))
   \<and> \<not> fgt (Fin (30000001 / 100000000)) (Fin kMatchThreshold)
   \<and> length (trackings (snd (getTracking out_of_range one_dog_manager ''dog''
        \<lparr>rect_x = 97299999910 / 10270000009, rect_y = 0, rect_width = 10, rect_height = 10\<rparr>
        1 example_stamp))) = 2"
  by (simp add: one_dog getTracking_def getObjName_def getTrackedRect_def near_threshold_score
      addTracking_def Let_def fgt_def kMatchThreshold_def)


text \<open>C10 at a request for a dog on the dog's own rectangle: the dog's track is returned.\<close>

theorem getTracking_label_witness:
  "fst (getTracking x86_out_of_range one_dog_manager ''dog'' example_rect 1 example_stamp) =
     Some \<lparr>tracking_id = 0, obj_name = ''dog'', probability = 1,
           tracked_rect = example_rect, algo = ''MEDIAN_FLOW'', active = True,
           corrections = []\<rparr>
   \<and> getObjName \<lparr>tracking_id = 0, obj_name = ''dog'', probability = 1,
           tracked_rect = example_rect, algo = ''MEDIAN_FLOW'', active = True,
           corrections = []\<rparr> = ''dog''"
proof -
  have h: "fst (getTracking x86_out_of_range one_dog_manager ''dog'' example_rect 1 example_stamp) =
     Some \<lparr>tracking_id = 0, obj_name = ''dog'', probability = 1,
           tracked_rect = example_rect, algo = ''MEDIAN_FLOW'', active = True,
           corrections = []\<rparr>"
    by (simp add: one_dog getTracking_def getObjName_def getTrackedRect_def example_score
        Let_def fgt_def kMatchThreshold_def)
  from h getTracking_label [OF h] show ?thesis by simp
qed


section \<open>Properties of the gating matrix\<close>







text \<open>Two numbers that are stored exactly.\<close>

lemma to_float_examples:
  "to_float (Fin 0) = Fin 0" "to_float (Fin 50) = Fin 50"
  by code_simp+






section \<open>Detections at the failing inputs\<close>

text \<open>
  C1 at its failing input. The manager is initialised and its window holds the stamp
  (7 s, 0 ns). A batch with that stamp, which \<open>isDetFrameValid\<close> finds in the window,
  is dropped: the manager is unchanged. A batch stamped (9 s, 0 ns), which was never
  admitted, is processed: its detection becomes a new, rectified track. The source
  returns when \<open>isDetFrameValid\<close> holds, where the claim (and the function's name) want
  the return when it does not. The motion model, the distance and the solver do not
  matter here.
\<close>

theorem detectRecvProcess_admission_inverted:
  "isDetFrameValid admitted_manager example_stamp
   \<and> detectRecvProcess getTraj mahalanobis solve admitted_manager
        \<lparr>stamp = example_stamp\<rparr> [example_object] = admitted_manager
   \<and> \<not> isDetFrameValid admitted_manager \<lparr>tv_sec = 9, tv_nsec = 0\<rparr>
   \<and> trackings (detectRecvProcess getTraj mahalanobis solve admitted_manager
        \<lparr>stamp = \<lparr>tv_sec = 9, tv_nsec = 0\<rparr>\<rparr> [example_object]) =
       [\<lparr>tracking_id = 0, obj_name = ''cat'', probability = 1, tracked_rect = example_rect,
         algo = ''MEDIAN_FLOW'', active = True,
         corrections = [(\<lparr>tv_sec = 9, tv_nsec = 0\<rparr>, example_rect)]\<rparr>]"
  by (simp add: admitted_manager_def example_object_def example_stamp_def
      new_TrackingManager_def detectRecvProcess_def isDetFrameValid_def
      calcTrackDetMahaDistance_def empty_mat_def rows_def addTracking_def Let_def
      setAlgo_def new_Tracking_def rectifyTracker_def)

text \<open>
  C2 at its failing input. The manager holds one track, a dog, and the batch holds one
  detection on the dog's rectangle. The cost matrix has the single cell 0 and the solved
  matrix reports it as an assignment, so the detection is matched to track 0. The
  manager's tracks are then exactly what they were: the matched track's log of
  corrections is still empty. For a matched detection the source only prints
  \<open>need update to detection\<close>.
\<close>

theorem detectRecvProcess_matched_not_rectified:
  "snd (matchTrackDetWithDistance (\<lambda>m row col. Fin 0)
          (calcTrackDetMahaDistance
             (\<lambda>t st. Some \<lparr>traj_rect = tracked_rect t, traj_covar = [[Fin 1, Fin 0], [Fin 0, Fin 1]]\<rparr>)
             (\<lambda>t d covar. Fin (\<bar>fst t - fst d\<bar> + \<bar>snd t - snd d\<bar>))
             [example_object\<lparr>Category := ''dog''\<rparr>] (trackings one_dog_manager) example_stamp)
          [- 1] [- 1]) = [0]
   \<and> detectRecvProcess
        (\<lambda>t st. Some \<lparr>traj_rect = tracked_rect t, traj_covar = [[Fin 1, Fin 0], [Fin 0, Fin 1]]\<rparr>)
        (\<lambda>t d covar. Fin (\<bar>fst t - fst d\<bar> + \<bar>snd t - snd d\<bar>))
        (\<lambda>m row col. Fin 0)
        one_dog_manager \<lparr>stamp = example_stamp\<rparr> [example_object\<lparr>Category := ''dog''\<rparr>]
      = one_dog_manager\<lparr>initialized := True\<rparr>
   \<and> map corrections (trackings one_dog_manager) = [[]]"
  by (simp add: one_dog example_object_def detectRecvProcess_def isDetFrameValid_def
      calcTrackDetMahaDistance_def distance_row_def matchTrackDetWithDistance_def
      empty_mat_def rows_def cols_def centre_def example_rect_def fgt_def Let_def
      to_float_examples del: to_float.simps)

text \<open>Read off the evaluation: after the batch the matched track has received no correction.\<close>

theorem detectRecvProcess_matched_not_rectified_witness:
  "map corrections (trackings (detectRecvProcess
        (\<lambda>t st. Some \<lparr>traj_rect = tracked_rect t, traj_covar = [[Fin 1, Fin 0], [Fin 0, Fin 1]]\<rparr>)
        (\<lambda>t d covar. Fin (\<bar>fst t - fst d\<bar> + \<bar>snd t - snd d\<bar>))
        (\<lambda>m row col. Fin 0)
        one_dog_manager \<lparr>stamp = example_stamp\<rparr> [example_object\<lparr>Category := ''dog''\<rparr>]))
   = [[]]"
  using detectRecvProcess_matched_not_rectified by simp

section \<open>The maximum-weight matcher on a zero matrix\<close>

text \<open>The loop of a search steps over the targets already visited.\<close>

lemma searchMatch_loop_skip:
  "\<forall>j \<in> set js. tgtVisit st ! j = 1 \<Longrightarrow>
   searchMatch_loop f srcCorr tgtCorr cor src v (js @ rest) st =
   searchMatch_loop f srcCorr tgtCorr cor src v rest st"
  by (induction js) simp_all

text \<open>The loop at a target that is not visited and whose gap is 0.\<close>

lemma searchMatch_loop_zero_gap:
  assumes "tgtVisit st ! c \<noteq> 1"
    and "fsub (fadd v (tgtCorr ! c)) (cor ! src ! c) = Fin 0"
  shows "searchMatch_loop f srcCorr tgtCorr cor src v (c # rest) st =
     (if tgtMatch st ! c = - 1
      then Some (True, st\<lparr>tgtVisit := (tgtVisit st)[c := 1],
                          tgtMatch := (tgtMatch st)[c := int src]\<rparr>)
      else
        (case searchMatch f srcCorr tgtCorr cor (nat (tgtMatch st ! c))
                (st\<lparr>tgtVisit := (tgtVisit st)[c := 1]\<rparr>) of
           None \<Rightarrow> None
         | Some (found, st2) \<Rightarrow>
             if found then Some (True, st2\<lparr>tgtMatch := (tgtMatch st2)[c := int src]\<rparr>)
             else searchMatch_loop f srcCorr tgtCorr cor src v rest st2))"
  using assms by (simp add: Let_def fle_def)

text \<open>
  The augmenting chain on the zero matrix of side \<open>n\<close>. Rows \<open>0\<close> to \<open>i - 1\<close> are
  matched, column \<open>j\<close> to row \<open>i - 1 - j\<close>, and the columns below \<open>k\<close> are visited. A
  search from row \<open>i - k\<close> then takes column \<open>k\<close>, sends its row \<open>i - 1 - k\<close> on to column
  \<open>k + 1\<close>, and so on until the free column \<open>i\<close>: it succeeds, and column \<open>j\<close> from \<open>k\<close>
  to \<open>i\<close> ends matched to row \<open>i - j\<close>. The depth of the search is \<open>i - k + 1\<close>.
\<close>

lemma upt_split_at: "k < n \<Longrightarrow> [0..<n] = [0..<k] @ k # [Suc k..<n]"
  using upt_add_eq_append [of 0 k "n - k"] by (simp add: upt_conv_Cons)

lemma searchMatch_zero_chain:
  assumes "k \<le> i" and "i < n" and "i - k < fuel"
    and "length (tgtVisit st) = n"
    and "\<forall>j < n. tgtVisit st ! j = (if j < k then 1 else 0)"
    and "length (tgtMatch st) = n"
    and "\<forall>j < n. tgtMatch st ! j = (if j < i then int (i - 1 - j) else - 1)"
  shows "\<exists>st'. searchMatch fuel (replicate n (Fin 0)) (replicate n (Fin 0))
                  (replicate n (replicate n (Fin 0))) (i - k) st = Some (True, st')
           \<and> length (tgtMatch st') = n
           \<and> (\<forall>j < n. tgtMatch st' ! j =
                 (if j < k then int (i - 1 - j) else if j \<le> i then int (i - j) else - 1))"
  using assms
proof (induction k arbitrary: st fuel rule: inc_induct)
  case base
  let ?Z = "replicate n (Fin 0)"
  let ?C = "replicate n ?Z"
  from base obtain f where fuel: "fuel = Suc f" by (cases fuel) auto
  let ?st1 = "st\<lparr>srcVisit := (srcVisit st)[0 := 1]\<rparr>"
  have vis: "\<forall>j \<in> set [0..<i]. tgtVisit ?st1 ! j = 1"
    using base by simp
  have nv: "tgtVisit ?st1 ! i \<noteq> 1" using base by simp
  have gap: "fsub (fadd (?Z ! 0) (?Z ! i)) (?C ! 0 ! i) = Fin 0"
    using base by (simp add: fsub_def)
  have free: "tgtMatch ?st1 ! i = - 1" using base by simp
  have "searchMatch fuel ?Z ?Z ?C (i - i) st =
          searchMatch_loop f ?Z ?Z ?C 0 (?Z ! 0) ([0..<i] @ i # [Suc i..<n]) ?st1"
    using base by (simp add: fuel upt_split_at [symmetric])
  also have "\<dots> = searchMatch_loop f ?Z ?Z ?C 0 (?Z ! 0) (i # [Suc i..<n]) ?st1"
    by (rule searchMatch_loop_skip [OF vis])
  also have "\<dots> = Some (True, ?st1\<lparr>tgtVisit := (tgtVisit ?st1)[i := 1],
                          tgtMatch := (tgtMatch ?st1)[i := int 0]\<rparr>)"
    unfolding searchMatch_loop_zero_gap [OF nv gap] using free by simp
  finally have r: "searchMatch fuel ?Z ?Z ?C (i - i) st =
      Some (True, ?st1\<lparr>tgtVisit := (tgtVisit ?st1)[i := 1],
                          tgtMatch := (tgtMatch ?st1)[i := int 0]\<rparr>)" .
  show ?case
    unfolding r using base by (auto simp: nth_list_update)
next
  case (step k)
  let ?Z = "replicate n (Fin 0)"
  let ?C = "replicate n ?Z"
  from step.prems obtain f where fuel: "fuel = Suc f" by (cases fuel) auto
  have kn: "k < n" "i - k < n" using step by auto
  let ?st1 = "st\<lparr>srcVisit := (srcVisit st)[i - k := 1]\<rparr>"
  let ?st2 = "?st1\<lparr>tgtVisit := (tgtVisit ?st1)[k := 1]\<rparr>"
  have vis: "\<forall>j \<in> set [0..<k]. tgtVisit ?st1 ! j = 1"
    using step.prems kn by simp
  have nv: "tgtVisit ?st1 ! k \<noteq> 1" using step.prems kn by simp
  have gap: "fsub (fadd (?Z ! (i - k)) (?Z ! k)) (?C ! (i - k) ! k) = Fin 0"
    using kn by (simp add: fsub_def)
  have idx: "tgtMatch ?st1 ! k = int (i - Suc k)" using step kn by simp
  have "\<exists>st'. searchMatch f ?Z ?Z ?C (i - Suc k) ?st2 = Some (True, st')
           \<and> length (tgtMatch st') = n
           \<and> (\<forall>j < n. tgtMatch st' ! j =
                 (if j < Suc k then int (i - 1 - j) else if j \<le> i then int (i - j) else - 1))"
  proof (rule step.IH)
    show "i < n" by fact
    show "i - Suc k < f" using step fuel by simp
    show "length (tgtVisit ?st2) = n" using step.prems by simp
    show "\<forall>j<n. tgtVisit ?st2 ! j = (if j < Suc k then 1 else 0)"
      using step.prems kn by (auto simp: nth_list_update)
    show "length (tgtMatch ?st2) = n" using step.prems by simp
    show "\<forall>j<n. tgtMatch ?st2 ! j = (if j < i then int (i - 1 - j) else - 1)"
      using step.prems by simp
  qed
  then obtain st3 where st3: "searchMatch f ?Z ?Z ?C (i - Suc k) ?st2 = Some (True, st3)"
    "length (tgtMatch st3) = n"
    "\<forall>j < n. tgtMatch st3 ! j =
        (if j < Suc k then int (i - 1 - j) else if j \<le> i then int (i - j) else - 1)"
    by blast
  have "searchMatch fuel ?Z ?Z ?C (i - k) st =
          searchMatch_loop f ?Z ?Z ?C (i - k) (?Z ! (i - k)) ([0..<k] @ k # [Suc k..<n]) ?st1"
    using kn by (simp add: fuel upt_split_at [symmetric])
  also have "\<dots> = searchMatch_loop f ?Z ?Z ?C (i - k) (?Z ! (i - k)) (k # [Suc k..<n]) ?st1"
    by (rule searchMatch_loop_skip [OF vis])
  also have "\<dots> = Some (True, st3\<lparr>tgtMatch := (tgtMatch st3)[k := int (i - k)]\<rparr>)"
    unfolding searchMatch_loop_zero_gap [OF nv gap] using idx st3(1) by simp
  finally have r: "searchMatch fuel ?Z ?Z ?C (i - k) st =
      Some (True, st3\<lparr>tgtMatch := (tgtMatch st3)[k := int (i - k)]\<rparr>)" .
  show ?case
    unfolding r using st3 kn step.hyps by (auto simp: nth_list_update)
qed

text \<open>The loop of row \<open>i\<close> ends in its first round, without relabelling.\<close>

lemma while_zero_row:
  assumes "i < n" and "i < fuel"
    and "length (tgtMatch st) = n"
    and "\<forall>j < n. tgtMatch st ! j = (if j < i then int (i - 1 - j) else - 1)"
  shows "\<exists>st'. matchTrackDetWithProb_while fuel fuel (replicate n (replicate n (Fin 0))) n i
                  (replicate n (Fin 0), replicate n (Fin 0), st)
                = Some (Inr (replicate n (Fin 0), replicate n (Fin 0), st'))
           \<and> length (tgtMatch st') = n
           \<and> (\<forall>j < n. tgtMatch st' ! j = (if j < Suc i then int (Suc i - 1 - j) else - 1))"
proof -
  let ?Z = "replicate n (Fin 0)"
  let ?C = "replicate n ?Z"
  let ?st0 = "st\<lparr>srcVisit := replicate n 0, tgtVisit := replicate n 0\<rparr>"
  from assms obtain r where fuel: "fuel = Suc r" by (cases fuel) auto
  have "\<exists>st'. searchMatch fuel ?Z ?Z ?C (i - 0) ?st0 = Some (True, st')
           \<and> length (tgtMatch st') = n
           \<and> (\<forall>j < n. tgtMatch st' ! j =
                 (if j < 0 then int (i - 1 - j) else if j \<le> i then int (i - j) else - 1))"
    using assms by (intro searchMatch_zero_chain) simp_all
  then obtain st' where st': "searchMatch fuel ?Z ?Z ?C i ?st0 = Some (True, st')"
    "length (tgtMatch st') = n"
    "\<forall>j < n. tgtMatch st' ! j = (if j \<le> i then int (i - j) else - 1)"
    by auto
  have "matchTrackDetWithProb_while (Suc r) fuel ?C n i (?Z, ?Z, st) = Some (Inr (?Z, ?Z, st'))"
    by (simp add: st'(1) Let_def)
  with st'(2,3) show ?thesis
    unfolding fuel [symmetric] by (auto simp: fuel less_Suc_eq_le)
qed

text \<open>The loop over the rows from \<open>i\<close> on.\<close>

lemma rows_zero:
  assumes "i \<le> n" and "n \<le> fuel"
    and "length (tgtMatch st) = n"
    and "\<forall>j < n. tgtMatch st ! j = (if j < i then int (i - 1 - j) else - 1)"
  shows "\<exists>st'. matchTrackDetWithProb_rows fuel (replicate n (replicate n (Fin 0))) n [i..<n]
                  (replicate n (Fin 0), replicate n (Fin 0), st)
                = Some (Inr (replicate n (Fin 0), replicate n (Fin 0), st'))
           \<and> length (tgtMatch st') = n
           \<and> (\<forall>j < n. tgtMatch st' ! j = int (n - 1 - j))"
  using assms
proof (induction i arbitrary: st rule: inc_induct)
  case base
  then show ?case by simp
next
  case (step i)
  let ?Z = "replicate n (Fin 0)"
  let ?C = "replicate n ?Z"
  let ?st = "st\<lparr>weightDelta := replicate n PInf\<rparr>"
  have "\<exists>st1. matchTrackDetWithProb_while fuel fuel ?C n i (?Z, ?Z, ?st)
                = Some (Inr (?Z, ?Z, st1))
           \<and> length (tgtMatch st1) = n
           \<and> (\<forall>j < n. tgtMatch st1 ! j = (if j < Suc i then int (Suc i - 1 - j) else - 1))"
    using step by (intro while_zero_row) simp_all
  then obtain st1 where st1:
    "matchTrackDetWithProb_while fuel fuel ?C n i (?Z, ?Z, ?st) = Some (Inr (?Z, ?Z, st1))"
    "length (tgtMatch st1) = n"
    "\<forall>j < n. tgtMatch st1 ! j = (if j < Suc i then int (Suc i - 1 - j) else - 1)"
    by blast
  from step.IH [OF \<open>n \<le> fuel\<close> st1(2,3)] obtain st' where st':
    "matchTrackDetWithProb_rows fuel ?C n [Suc i..<n] (?Z, ?Z, st1) = Some (Inr (?Z, ?Z, st'))"
    "length (tgtMatch st') = n" "\<forall>j < n. tgtMatch st' ! j = int (n - 1 - j)"
    by blast
  from \<open>i < n\<close> have "[i..<n] = i # [Suc i..<n]" by (rule upt_conv_Cons)
  then have "matchTrackDetWithProb_rows fuel ?C n [i..<n] (?Z, ?Z, st) = Some (Inr (?Z, ?Z, st'))"
    by (simp add: st1(1) st'(1))
  with st'(2,3) show ?case by blast
qed

text \<open>The start of \<open>matchTrackDetWithProb\<close> on the zero matrix.\<close>

lemma row_max_of_zero: "row_max_of (replicate n (Fin 0)) = Fin 0"
proof -
  have "foldl (\<lambda>row_max row_value. if fle row_max row_value then row_value else row_max)
          (Fin 0) (replicate n (Fin 0)) = Fin 0"
    by (induction n) simp_all
  then show ?thesis by (simp add: row_max_of_def)
qed

lemma pad_square_zero:
  "pad_square (replicate n (replicate n (Fin 0))) n = replicate n (replicate n (Fin 0))"
proof -
  have "map (\<lambda>j. if i < rows (replicate n (replicate n (Fin 0)))
                     \<and> j < cols (replicate n (replicate n (Fin 0)))
                  then replicate n (replicate n (Fin 0)) ! i ! j else Fin 0) [0..<n]
        = replicate n (Fin 0)" if "i < n" for i :: nat
    using that by (intro nth_equalityI) (simp_all add: rows_def)
  then have "map (\<lambda>i. map (\<lambda>j. if i < rows (replicate n (replicate n (Fin 0)))
                     \<and> j < cols (replicate n (replicate n (Fin 0)))
                  then replicate n (replicate n (Fin 0)) ! i ! j else Fin 0) [0..<n]) [0..<n]
        = replicate n (replicate n (Fin 0))"
    by (intro nth_equalityI) simp_all
  then show ?thesis by (simp add: pad_square_def)
qed

lemma size_zero: "rows (replicate n (replicate n c)) = n \<and> cols (replicate n (replicate n c)) = n"
  by (cases n) (simp_all add: rows_def cols_def)

text \<open>
  C5 (as the code has it). On the zero matrix of side \<open>n\<close>, with \<open>matches\<close> of \<open>n\<close>
  entries \<open>-1\<close>, \<open>matchTrackDetWithProb\<close> returns (the fuel \<open>n\<close> is enough), and it
  matches every column: column \<open>j\<close> to row \<open>n - 1 - j\<close>. No entry of the result is
  \<open>-1\<close>.
\<close>

theorem matchTrackDetWithProb_zero_matrix:
  assumes "n \<le> fuel"
  shows "matchTrackDetWithProb fuel (replicate n (replicate n (Fin 0))) (replicate n (- 1))
           = Some (Inr (map (\<lambda>j. int (n - 1 - j)) [0..<n]))
         \<and> - 1 \<notin> set (map (\<lambda>j. int (n - 1 - j)) [0..<n])"
proof -
  let ?Z = "replicate n (Fin 0)"
  let ?C = "replicate n ?Z"
  let ?st = "\<lparr>srcVisit = replicate n 0, tgtVisit = replicate n 0,
              tgtMatch = replicate n (- 1), weightDelta = replicate n PInf\<rparr>"
  have "\<exists>st'. matchTrackDetWithProb_rows fuel ?C n [0..<n] (?Z, ?Z, ?st)
                = Some (Inr (?Z, ?Z, st'))
           \<and> length (tgtMatch st') = n
           \<and> (\<forall>j < n. tgtMatch st' ! j = int (n - 1 - j))"
    using assms by (intro rows_zero) simp_all
  then obtain st' where st':
    "matchTrackDetWithProb_rows fuel ?C n [0..<n] (?Z, ?Z, ?st) = Some (Inr (?Z, ?Z, st'))"
    "length (tgtMatch st') = n" "\<forall>j < n. tgtMatch st' ! j = int (n - 1 - j)"
    by blast
  from st'(2,3) have m: "tgtMatch st' = map (\<lambda>j. int (n - 1 - j)) [0..<n]"
    by (intro nth_equalityI) simp_all
  have "matchTrackDetWithProb fuel ?C (replicate n (- 1)) = Some (Inr (tgtMatch st'))"
    unfolding matchTrackDetWithProb_def
    by (simp add: size_zero pad_square_zero row_max_of_zero st'(1) st'(2) Let_def)
  with m show ?thesis by auto
qed

text \<open>C5's theorem at side 3: the columns are matched to the rows 2, 1, 0.\<close>

theorem matchTrackDetWithProb_zero_matrix_witness:
  "(3::nat) \<le> 3
   \<and> matchTrackDetWithProb 3 (replicate 3 (replicate 3 (Fin 0))) (replicate 3 (- 1))
       = Some (Inr [2, 1, 0])"
  using matchTrackDetWithProb_zero_matrix [of 3 3] by (simp add: upt_rec)

text \<open>
  C5 as stated fails at side 1: the single column is matched to row 0, the match array
  does not stay at \<open>-1\<close>.
\<close>

theorem matchTrackDetWithProb_zero_matrix_matched:
  "matchTrackDetWithProb 1 (replicate 1 (replicate 1 (Fin 0))) (replicate 1 (- 1))
     = Some (Inr [0])
   \<and> matchTrackDetWithProb 1 (replicate 1 (replicate 1 (Fin 0))) (replicate 1 (- 1))
     \<noteq> Some (Inr (replicate 1 (- 1)))"
  by code_simp

section \<open>Detections in general\<close>

text \<open>
  The loop over the detections appends one track per unmatched detection, each rectified
  with its own rectangle, and touches neither the tracks that were there nor the window.
\<close>

lemma detectRecvProcess_loop_appends:
  "\<exists>new. trackings (detectRecvProcess_loop frame objs ms s) = trackings s @ new
     \<and> (\<forall>t \<in> set new. corrections t = [(stamp frame, tracked_rect t)])
     \<and> length new = length (filter (\<lambda>(obj, m). m < 0) (zip objs ms))
     \<and> validFrames (detectRecvProcess_loop frame objs ms s) = validFrames s"
proof (induction objs arbitrary: ms s)
  case Nil
  then show ?case by simp
next
  case (Cons obj objs)
  show ?case
  proof (cases ms)
    case Nil
    then show ?thesis by simp
  next
    case ms: (Cons tracker_idx det_matches)
    show ?thesis
    proof (cases "tracker_idx \<ge> 0")
      case True
      with Cons.IH [of det_matches s] show ?thesis by (simp add: ms)
    next
      case False
      define r where
        "r = rectifyTracker frame (BoundBox obj)
               (fst (addTracking s (Category obj) (Confidence obj) (BoundBox obj)))"
      define s2 where
        "s2 = (snd (addTracking s (Category obj) (Confidence obj) (BoundBox obj)))
                \<lparr>trackings :=
                   (trackings (snd (addTracking s (Category obj) (Confidence obj) (BoundBox obj))))
                   [length (trackings (snd (addTracking s (Category obj) (Confidence obj)
                       (BoundBox obj)))) - 1 := r]\<rparr>"
      have tr: "trackings s2 = trackings s @ [r]"
        by (simp add: s2_def addTracking_def Let_def)
      have vf: "validFrames s2 = validFrames s"
        by (simp add: s2_def addTracking_def Let_def)
      have c: "corrections r = [(stamp frame, tracked_rect r)]"
        by (simp add: r_def addTracking_def Let_def rectifyTracker_def setAlgo_def
            new_Tracking_def)
      from Cons.IH [of det_matches s2]
      obtain new where new: "trackings (detectRecvProcess_loop frame objs det_matches s2) =
            trackings s2 @ new"
        "\<forall>t \<in> set new. corrections t = [(stamp frame, tracked_rect t)]"
        "length new = length (filter (\<lambda>(obj, m). m < 0) (zip objs det_matches))"
        "validFrames (detectRecvProcess_loop frame objs det_matches s2) = validFrames s2"
        by auto
      have e: "detectRecvProcess_loop frame (obj # objs) (tracker_idx # det_matches) s =
          detectRecvProcess_loop frame objs det_matches s2"
        using False by (simp add: s2_def r_def split: prod.splits)
      have "trackings (detectRecvProcess_loop frame (obj # objs) ms s) = trackings s @ (r # new)"
        unfolding ms e by (simp add: new(1) tr)
      moreover have "\<forall>t \<in> set (r # new). corrections t = [(stamp frame, tracked_rect t)]"
        using new(2) c by simp
      moreover have "length (r # new) = length (filter (\<lambda>(obj, m). m < 0) (zip (obj # objs) ms))"
        using new(3) False by (simp add: ms)
      moreover have "validFrames (detectRecvProcess_loop frame (obj # objs) ms s) = validFrames s"
        unfolding ms e by (simp add: new(4) vf)
      ultimately show ?thesis by blast
    qed
  qed
qed

text \<open>
  What \<open>detectRecvProcess\<close> does on any input: it returns at once when the manager is
  initialised and \<open>isDetFrameValid\<close> holds; otherwise it initialises the manager, leaves
  the window and the tracks that were there as they are, and appends rectified tracks.
\<close>

lemma detectRecvProcess_effect:
  "(initialized s \<and> isDetFrameValid s (stamp frame) \<longrightarrow>
      detectRecvProcess getTraj mahalanobis solve s frame objs = s)
   \<and> (\<not> (initialized s \<and> isDetFrameValid s (stamp frame)) \<longrightarrow>
      initialized (detectRecvProcess getTraj mahalanobis solve s frame objs)
      \<and> validFrames (detectRecvProcess getTraj mahalanobis solve s frame objs) = validFrames s
      \<and> take (length (trackings s))
           (trackings (detectRecvProcess getTraj mahalanobis solve s frame objs)) = trackings s
      \<and> (\<forall>t \<in> set (drop (length (trackings s))
                     (trackings (detectRecvProcess getTraj mahalanobis solve s frame objs))).
            corrections t = [(stamp frame, tracked_rect t)]))"
proof -
  have a: "initialized s \<and> isDetFrameValid s (stamp frame) \<longrightarrow>
      detectRecvProcess getTraj mahalanobis solve s frame objs = s"
    by (simp add: detectRecvProcess_def)
  have b: "initialized (detectRecvProcess getTraj mahalanobis solve s frame objs)
      \<and> validFrames (detectRecvProcess getTraj mahalanobis solve s frame objs) = validFrames s
      \<and> take (length (trackings s))
           (trackings (detectRecvProcess getTraj mahalanobis solve s frame objs)) = trackings s
      \<and> (\<forall>t \<in> set (drop (length (trackings s))
                     (trackings (detectRecvProcess getTraj mahalanobis solve s frame objs))).
            corrections t = [(stamp frame, tracked_rect t)])"
    if n: "\<not> (initialized s \<and> isDetFrameValid s (stamp frame))"
  proof -
    obtain ms where d: "detectRecvProcess getTraj mahalanobis solve s frame objs =
        (detectRecvProcess_loop frame objs ms s)\<lparr>initialized := True\<rparr>"
      using n by (auto simp: detectRecvProcess_def Let_def)
    from detectRecvProcess_loop_appends [of frame objs ms s] obtain new where
      "trackings (detectRecvProcess_loop frame objs ms s) = trackings s @ new"
      "\<forall>t \<in> set new. corrections t = [(stamp frame, tracked_rect t)]"
      "validFrames (detectRecvProcess_loop frame objs ms s) = validFrames s"
      by blast
    then show ?thesis by (simp add: d)
  qed
  from a b show ?thesis by blast
qed

text \<open>
  X1. Every track a processed batch adds has received exactly one correction: the
  frame's stamp with the rectangle the track was created on.
\<close>

theorem detectRecvProcess_new_tracks_rectified:
  "\<not> (initialized s \<and> isDetFrameValid s (stamp frame)) \<Longrightarrow>
   t \<in> set (drop (length (trackings s))
              (trackings (detectRecvProcess getTraj mahalanobis solve s frame objs))) \<Longrightarrow>
   corrections t = [(stamp frame, tracked_rect t)]"
  using detectRecvProcess_effect [of s frame getTraj mahalanobis solve objs] by blast

text \<open>X1 at one unmatched cat on a manager that holds a dog: the cat's track is rectified.\<close>

theorem detectRecvProcess_new_tracks_rectified_witness:
  "\<not> (initialized one_dog_manager \<and> isDetFrameValid one_dog_manager example_stamp)
   \<and> drop 1 (trackings (detectRecvProcess
        (\<lambda>t st. None) (\<lambda>t d covar. Fin 0) (\<lambda>m row col. Fin 1)
        one_dog_manager \<lparr>stamp = example_stamp\<rparr> [example_object]))
      = [\<lparr>tracking_id = 1, obj_name = ''cat'', probability = 1, tracked_rect = example_rect,
           algo = ''MEDIAN_FLOW'', active = True,
           corrections = [(example_stamp, example_rect)]\<rparr>]
   \<and> corrections \<lparr>tracking_id = 1, obj_name = ''cat'', probability = 1,
           tracked_rect = example_rect, algo = ''MEDIAN_FLOW'', active = True,
           corrections = [(example_stamp, example_rect)]\<rparr>
      = [(example_stamp, example_rect)]"
proof -
  have h: "\<not> (initialized one_dog_manager
              \<and> isDetFrameValid one_dog_manager (stamp \<lparr>stamp = example_stamp\<rparr>))"
    by (simp add: one_dog)
  have d: "drop (length (trackings one_dog_manager)) (trackings (detectRecvProcess
        (\<lambda>t st. None) (\<lambda>t d covar. Fin 0) (\<lambda>m row col. Fin 1)
        one_dog_manager \<lparr>stamp = example_stamp\<rparr> [example_object]))
      = [\<lparr>tracking_id = 1, obj_name = ''cat'', probability = 1, tracked_rect = example_rect,
           algo = ''MEDIAN_FLOW'', active = True,
           corrections = [(example_stamp, example_rect)]\<rparr>]"
    by (simp add: one_dog example_object_def detectRecvProcess_def isDetFrameValid_def
        calcTrackDetMahaDistance_def distance_row_def matchTrackDetWithDistance_def
        empty_mat_def rows_def cols_def addTracking_def setAlgo_def new_Tracking_def
        rectifyTracker_def Let_def)
  have m: "\<lparr>tracking_id = 1, obj_name = ''cat'', probability = 1, tracked_rect = example_rect,
           algo = ''MEDIAN_FLOW'', active = True,
           corrections = [(example_stamp, example_rect)]\<rparr>
        \<in> set (drop (length (trackings one_dog_manager)) (trackings (detectRecvProcess
        (\<lambda>t st. None) (\<lambda>t d covar. Fin 0) (\<lambda>m row col. Fin 1)
        one_dog_manager \<lparr>stamp = example_stamp\<rparr> [example_object])))"
    by (simp only: d) simp
  have l: "length (trackings one_dog_manager) = 1" by (simp add: one_dog)
  from h d l detectRecvProcess_new_tracks_rectified [OF h m] show ?thesis by simp
qed

text \<open>
  X2. \<open>isDetFrameValid\<close> holds exactly when the stamp is in the window, seconds and
  nanoseconds both equal.
\<close>

theorem isDetFrameValid_exact:
  "isDetFrameValid s st = (st \<in> set (validFrames s))"
proof -
  have "isDetFrameValid_from fs st = (st \<in> set fs)" for fs
    by (induction fs) auto
  then show ?thesis by (simp add: isDetFrameValid_def)
qed

end
